theory Spec2Isabelle
  imports Complex_Main "HOL-Library.Word"
begin

section \<open>Serial port to CSV: line reassembly and heart-rate pipeline\<close>

text \<open>
  A shallow embedding of \<^verbatim>\<open>main\<close> in \<^verbatim>\<open>WIN-Serial-2-CSV.c\<close>: the byte loop that
  reassembles lines, the \<^verbatim>\<open>sscanf\<close> call, the low-pass filter, the peak detector with
  its refractory gate, the heart-rate update and the write to the CSV file.

  Conventions of the model.
  \<^item> The local variables of \<^verbatim>\<open>main\<close> are the fields of one record, threaded through
    every step; the streams the program writes (the CSV file, stdout, stderr) are
    lists of what was written, oldest first.
  \<^item> A C \<^verbatim>\<open>float\<close> is a \<^typ>\<open>real\<close>. The steps of the pipeline are written with
    exact arithmetic, the constants \<^verbatim>\<open>0.2f\<close>, \<^verbatim>\<open>0.3f\<close> being the rationals they
    denote in the text of the program. The values that line 144 computes on the machine,
    where every operation is rounded to binary32, are modelled on their own (\<open>lowpass32\<close>
    below), and what is said of the values of the filter is proved of that model.
  \<^item> A C \<^verbatim>\<open>int\<close> is an \<^typ>\<open>int\<close>. The model agrees with the program as long as
    \<^verbatim>\<open>sample_idx\<close> stays below \<^verbatim>\<open>INT_MAX\<close> (about 248 days of samples at 100 Hz)
    and the parsed integers fit an \<^verbatim>\<open>int\<close>; beyond that C leaves the behaviour
    undefined.
  \<^item> \<^verbatim>\<open>n_bytes\<close> is a \<^verbatim>\<open>DWORD\<close>, an unsigned 32-bit word; the cast
    \<^verbatim>\<open>(int)n_bytes\<close> reads the same bits as a signed value.
\<close>

subsection \<open>Constants\<close>

type_synonym cfloat = real

definition BUFFER_SIZE :: nat where
  "BUFFER_SIZE = 1024"

definition CHUNK_SIZE :: nat where
  "CHUNK_SIZE = 256"

definition FS :: cfloat where
  "FS = 100"

definition alpha_filt :: cfloat where
  "alpha_filt = 2 / 10"

definition alpha_hr :: cfloat where
  "alpha_hr = 3 / 10"

definition peak_thr :: cfloat where
  "peak_thr = 10"

definition min_hr_bpm :: cfloat where
  "min_hr_bpm = 40"

definition max_hr_bpm :: cfloat where
  "max_hr_bpm = 200"

definition refractory_s :: cfloat where
  "refractory_s = 3 / 10"

text \<open>The cast \<^verbatim>\<open>(int)(refractory_s * FS)\<close> truncates towards zero.\<close>

definition trunc_int :: "cfloat \<Rightarrow> int" where
  "trunc_int x = (if 0 \<le> x then \<lfloor>x\<rfloor> else \<lceil>x\<rceil>)"

definition refractory_n :: int where
  "refractory_n = trunc_int (refractory_s * FS)"

definition newline :: char where
  "newline = CHR 0x0A"

definition NUL :: char where
  "NUL = CHR 0x00"

subsection \<open>The C library's \<^verbatim>\<open>sscanf(buffer, "%d,%d", &red_int, &ir_int)\<close>\<close>

text \<open>
  After ISO C 7.21.6.2: a \<^verbatim>\<open>%d\<close> directive skips white space, then takes an optional
  sign and the longest run of decimal digits; with no digit the directive fails and
  \<^verbatim>\<open>sscanf\<close> returns, leaving the remaining arguments untouched. The \<^verbatim>\<open>,\<close> of the
  format matches exactly one comma. The input is a C string: it ends at the first NUL.
\<close>

definition isspace :: "char \<Rightarrow> bool" where
  "isspace c = (c \<in> set [CHR 0x20, CHR 0x09, CHR 0x0A, CHR 0x0B, CHR 0x0C, CHR 0x0D])"

definition isdigit :: "char \<Rightarrow> bool" where
  "isdigit c = (48 \<le> (of_char c :: nat) \<and> (of_char c :: nat) \<le> 57)"

definition digit_val :: "char \<Rightarrow> int" where
  "digit_val c = int (of_char c) - 48"

definition decimal :: "string \<Rightarrow> int" where
  "decimal ds = foldl (\<lambda>a c. 10 * a + digit_val c) 0 ds"

definition c_string :: "char list \<Rightarrow> string" where
  "c_string bs = takeWhile (\<lambda>c. c \<noteq> NUL) bs"

definition scan_sign :: "string \<Rightarrow> bool \<times> string" where
  "scan_sign t =
     (case t of
        [] \<Rightarrow> (False, t)
      | c # r \<Rightarrow> if c = CHR ''-'' then (True, r)
                 else if c = CHR ''+'' then (False, r)
                 else (False, t))"

definition scan_d :: "string \<Rightarrow> (int \<times> string) option" where
  "scan_d inp =
     (let (neg, u) = scan_sign (dropWhile isspace inp);
          ds = takeWhile isdigit u
      in if ds = [] then None
         else Some (if neg then - decimal ds else decimal ds, dropWhile isdigit u))"

definition sscanf_d_d :: "string \<Rightarrow> int option \<times> int option" where
  "sscanf_d_d str =
     (case scan_d str of
        None \<Rightarrow> (None, None)
      | Some (a, rest) \<Rightarrow>
          (case rest of
             [] \<Rightarrow> (Some a, None)
           | c # rest' \<Rightarrow>
               if c = CHR '','' then
                 (case scan_d rest' of
                    None \<Rightarrow> (Some a, None)
                  | Some (b, _) \<Rightarrow> (Some a, Some b))
               else (Some a, None)))"

text \<open>The number \<^verbatim>\<open>sscanf\<close> would report: how many integers it stored.\<close>

definition conversions :: "int option \<times> int option \<Rightarrow> nat" where
  "conversions r = (case r of (None, _) \<Rightarrow> 0 | (Some _, None) \<Rightarrow> 1 | (Some _, Some _) \<Rightarrow> 2)"

text \<open>
  Lines 133 to 135: \<^verbatim>\<open>red_int\<close> and \<^verbatim>\<open>ir_int\<close> are set to 0, then \<^verbatim>\<open>sscanf\<close>
  overwrites the ones it converts; its return value is not looked at.
\<close>

definition parse_ints :: "char list \<Rightarrow> int \<times> int" where
  "parse_ints buf =
     (case sscanf_d_d (c_string buf) of
        (a, b) \<Rightarrow> (case a of None \<Rightarrow> 0 | Some x \<Rightarrow> x, case b of None \<Rightarrow> 0 | Some y \<Rightarrow> y))"

subsection \<open>The variables of \<^verbatim>\<open>main\<close>\<close>

datatype message = Echo int int | HR cfloat | ReadError | Overflow

record state =
  red_raw :: cfloat
  ir_raw :: cfloat
  ir_filt :: cfloat
  hr_bpm :: cfloat
  hr_bpm_filt :: cfloat
  sample_idx :: int
  last_peak :: int
  prev_peak :: int
  prev_ir_filt :: cfloat
  buffer :: "char list"
  proc_val :: cfloat
  csvFile :: "cfloat list"
  stdout :: "message list"
  stderr :: "message list"

text \<open>
  \<^verbatim>\<open>buffer\<close> holds the bytes \<^verbatim>\<open>buffer[0 .. buffer_index - 1]\<close>, so \<^verbatim>\<open>buffer_index\<close>
  is its length; what lies beyond the index is never read.
\<close>

definition init :: state where
  "init = \<lparr>red_raw = 0, ir_raw = 0, ir_filt = 0, hr_bpm = 0, hr_bpm_filt = 0,
           sample_idx = 0, last_peak = - 1000, prev_peak = - 1000, prev_ir_filt = 0,
           buffer = [], proc_val = 0, csvFile = [], stdout = [], stderr = []\<rparr>"

subsection \<open>Processing one line (lines 130 to 181)\<close>

text \<open>Lines 130 to 139: parse the line, convert to \<^verbatim>\<open>float\<close>, echo the two integers.\<close>

definition read_sample :: "state \<Rightarrow> state" where
  "read_sample s =
     (case parse_ints (buffer s) of
        (red_int, ir_int) \<Rightarrow>
          s\<lparr>red_raw := real_of_int red_int, ir_raw := real_of_int ir_int,
            stdout := stdout s @ [Echo red_int ir_int]\<rparr>)"

text \<open>Line 144.\<close>

definition lowpass :: "state \<Rightarrow> state" where
  "lowpass s = s\<lparr>ir_filt := ir_filt s + alpha_filt * (ir_raw s - ir_filt s)\<rparr>"

text \<open>Lines 155 to 157, read after the two peak indices have been shifted.\<close>

definition delta_n :: "state \<Rightarrow> int" where
  "delta_n s = last_peak s - prev_peak s"

definition period_sec :: "state \<Rightarrow> cfloat" where
  "period_sec s = real_of_int (delta_n s) / FS"

definition inst_hr :: "state \<Rightarrow> cfloat" where
  "inst_hr s = 60 / period_sec s"

text \<open>Lines 160 to 165.\<close>

definition plausible :: "state \<Rightarrow> bool" where
  "plausible s = (inst_hr s > min_hr_bpm \<and> inst_hr s < max_hr_bpm)"

definition update_hr :: "state \<Rightarrow> state" where
  "update_hr s =
     (if plausible s then
        let h = hr_bpm_filt s + alpha_hr * (inst_hr s - hr_bpm_filt s)
        in s\<lparr>hr_bpm := inst_hr s, hr_bpm_filt := h, stdout := stdout s @ [HR h]\<rparr>
      else s)"

text \<open>Lines 148 to 168.\<close>

definition crossing :: "state \<Rightarrow> bool" where
  "crossing s = (prev_ir_filt s < peak_thr \<and> ir_filt s \<ge> peak_thr)"

definition accepts :: "state \<Rightarrow> bool" where
  "accepts s = (crossing s \<and> sample_idx s - last_peak s > refractory_n)"

definition shift_peaks :: "state \<Rightarrow> state" where
  "shift_peaks s = s\<lparr>prev_peak := last_peak s, last_peak := sample_idx s\<rparr>"

definition detect_peak :: "state \<Rightarrow> state" where
  "detect_peak s =
     (if crossing s then
        if sample_idx s - last_peak s > refractory_n then
          let s' = shift_peaks s
          in if prev_peak s' \<ge> 0 then update_hr s' else s'
        else s
      else s)"

text \<open>
  When lines 160 to 165 update the heart rate: a peak was accepted, the peak before it
  is not the initial \<^verbatim>\<open>-1000\<close>, and the rate is plausible.
\<close>

definition hr_runs :: "state \<Rightarrow> bool" where
  "hr_runs s = (accepts s \<and> 0 \<le> last_peak s \<and> plausible (shift_peaks s))"

text \<open>Lines 169 to 181.\<close>

definition emit :: "state \<Rightarrow> state" where
  "emit s =
     (let s1 = s\<lparr>prev_ir_filt := ir_filt s\<rparr>;
          s2 = s1\<lparr>proc_val := ir_filt s1\<rparr>;
          s3 = s2\<lparr>csvFile := csvFile s2 @ [proc_val s2]\<rparr>
      in s3\<lparr>buffer := [], sample_idx := sample_idx s3 + 1\<rparr>)"

definition process_line :: "state \<Rightarrow> state" where
  "process_line s = emit (detect_peak (lowpass (read_sample s)))"

text \<open>The state in which the peak detector runs while a line is processed.\<close>

definition filtered :: "state \<Rightarrow> state" where
  "filtered s = lowpass (read_sample s)"

subsection \<open>The byte loop (lines 126 to 192) and the polling loop (lines 119 to 200)\<close>

definition process_byte :: "state \<Rightarrow> char \<Rightarrow> state" where
  "process_byte s c =
     (if c = newline then process_line s
      else if length (buffer s) < BUFFER_SIZE - 1 then s\<lparr>buffer := buffer s @ [c]\<rparr>
      else s\<lparr>stderr := stderr s @ [Overflow], buffer := []\<rparr>)"

definition process_chunk :: "state \<Rightarrow> char list \<Rightarrow> state" where
  "process_chunk s bytes = foldl process_byte s bytes"

text \<open>
  One \<^verbatim>\<open>ReadFile\<close> gives \<^verbatim>\<open>n_bytes\<close> and the contents of \<^verbatim>\<open>chunk\<close>; the value
  \<^verbatim>\<open>ReadFile\<close> returns is not looked at. The loop reads \<^verbatim>\<open>chunk[0 .. n_bytes - 1]\<close>.
\<close>

type_synonym poll = "32 word \<times> char list"

datatype control = Continue | Break

definition poll_step :: "state \<Rightarrow> poll \<Rightarrow> control \<times> state" where
  "poll_step s p =
     (case p of (n_bytes, chunk) \<Rightarrow>
        if n_bytes > 0 then (Continue, process_chunk s (take (unat n_bytes) chunk))
        else if sint n_bytes < 0 then (Break, s\<lparr>stdout := stdout s @ [ReadError]\<rparr>)
        else (Continue, s))"

text \<open>
  \<^verbatim>\<open>while (1)\<close> over the polls the port delivers. On a finite list of polls the
  result is \<^const>\<open>Break\<close> when the loop was left, and \<^const>\<open>Continue\<close> when it is still
  polling after the last of them.
\<close>

fun main_loop :: "state \<Rightarrow> poll list \<Rightarrow> control \<times> state" where
  "main_loop s [] = (Continue, s)"
| "main_loop s (p # ps) =
     (case poll_step s p of
        (Break, s') \<Rightarrow> (Break, s')
      | (Continue, s') \<Rightarrow> main_loop s' ps)"

text \<open>
  Lines 203 to 206. \<^verbatim>\<open>CloseHandle\<close> returns nonzero when it succeeds, and \<^verbatim>\<open>&&\<close>
  evaluates \<^verbatim>\<open>fclose\<close> only when its left operand is true.
\<close>

record exit_info =
  close_handle_called :: bool
  fclose_called :: bool
  exit_status :: int

definition shutdown :: "int \<Rightarrow> exit_info" where
  "shutdown close_handle_result =
     \<lparr>close_handle_called = True,
      fclose_called = (close_handle_result = 0),
      exit_status = 0\<rparr>"

definition run_main :: "int \<Rightarrow> poll list \<Rightarrow> exit_info option" where
  "run_main close_handle_result polls =
     (case main_loop init polls of
        (Break, _) \<Rightarrow> Some (shutdown close_handle_result)
      | (Continue, _) \<Rightarrow> None)"

subsection \<open>What a run shows: completed lines and accepted peaks\<close>

text \<open>
  The program keeps no list of the lines it completed or of the peaks it accepted.
  The two functions below read them off a run of the byte loop: the contents of
  \<^verbatim>\<open>buffer\<close> each time line 130 is reached, and the value of \<^verbatim>\<open>sample_idx\<close> each
  time line 151 is reached.
\<close>

fun records :: "state \<Rightarrow> char list \<Rightarrow> char list list" where
  "records s [] = []"
| "records s (c # cs) =
     (if c = newline then [buffer s] else []) @ records (process_byte s c) cs"

fun peaks :: "state \<Rightarrow> char list \<Rightarrow> int list" where
  "peaks s [] = []"
| "peaks s (c # cs) =
     (if c = newline \<and> accepts (filtered s) then [sample_idx s] else [])
       @ peaks (process_byte s c) cs"

text \<open>The bytes one poll delivers to the byte loop, and the lines completed over many polls.\<close>

definition delivered :: "poll \<Rightarrow> char list" where
  "delivered p = (case p of (n_bytes, chunk) \<Rightarrow> take (unat n_bytes) chunk)"

fun records_polled :: "state \<Rightarrow> poll list \<Rightarrow> char list list" where
  "records_polled s [] = []"
| "records_polled s (p # ps) =
     records s (delivered p) @ records_polled (snd (poll_step s p)) ps"

text \<open>The poll in which \<^verbatim>\<open>ReadFile\<close> delivers exactly the bytes \<open>c\<close>.\<close>

definition poll_of :: "char list \<Rightarrow> poll" where
  "poll_of c = (of_nat (length c), c)"

text \<open>A line of text followed by its terminator, as it travels on the wire.\<close>

definition wire :: "char list \<Rightarrow> char list" where
  "wire l = l @ [newline]"

subsection \<open>States and byte streams for the examples\<close>

text \<open>
  A line \<^verbatim>\<open>0,0\<close> leaves a filter at rest. A beat is \<open>k\<close> such lines, then
  \<^verbatim>\<open>0,50\<close>, which lifts the filter from 0 to the threshold 10, then \<^verbatim>\<open>0,-40\<close>,
  which brings it back from 10 to 0.
\<close>

definition idle :: "nat \<Rightarrow> char list" where
  "idle n = concat (replicate n (wire ''0,0''))"

definition beat :: "nat \<Rightarrow> char list" where
  "beat k = idle k @ wire ''0,50'' @ wire ''0,-40''"

definition at_rest :: "state \<Rightarrow> bool" where
  "at_rest s = (ir_filt s = 0 \<and> prev_ir_filt s = 0 \<and> buffer s = [])"

text \<open>
  Three runs from the initial state, each stopped when the line \<^verbatim>\<open>0,50\<close> of a
  crossing is in the buffer and its terminator is due: the crossing at sample 60 after
  a peak at sample 10; the crossing at sample 210 after peaks at samples 10 and 60;
  the crossing at sample 15 after a peak at sample 10.
\<close>

definition before_second_peak :: state where
  "before_second_peak = process_chunk init (beat 10 @ idle 48 @ ''0,50'')"

definition before_slow_peak :: state where
  "before_slow_peak = process_chunk init (beat 10 @ beat 48 @ idle 148 @ ''0,50'')"

definition before_early_crossing :: state where
  "before_early_crossing = process_chunk init (beat 10 @ idle 3 @ ''0,50'')"



text \<open>Bytes without a terminator, to fill the buffer.\<close>

definition junk :: "nat \<Rightarrow> char list" where
  "junk n = replicate n (CHR ''x'')"

text \<open>
  Four polls that cut the line \<^verbatim>\<open>12,34\<close> in two: one of them delivers nothing, and
  the last leaves stale bytes in \<^verbatim>\<open>chunk\<close> beyond \<^verbatim>\<open>n_bytes\<close>.
\<close>

definition split_polls :: "poll list" where
  "split_polls = [(3, ''12,''), (0, ''zz''), (4, ''34'' @ [newline] @ ''5''), (2, ''6,9x'')]"

text \<open>The same bytes as a list of chunks, one of them empty.\<close>

definition split_chunks :: "char list list" where
  "split_chunks = [''12,'', [], ''34'' @ [newline] @ ''5'', ''6,'']"

subsection \<open>Line 144 as the machine computes it: binary32\<close>


definition quantum :: "real \<Rightarrow> int" where
  "quantum z = max (\<lfloor>log 2 \<bar>z\<bar>\<rfloor> - 23) (- 149)"






section \<open>Basic facts\<close>

lemma refractory_n_eq: "refractory_n = 30"
  by (simp add: refractory_n_def trunc_int_def refractory_s_def FS_def)

lemmas parse_defs = parse_ints_def sscanf_d_d_def scan_d_def scan_sign_def c_string_def
  isspace_def isdigit_def digit_val_def decimal_def NUL_def conversions_def

subsection \<open>The byte loop\<close>

lemma process_chunk_Nil: "process_chunk s [] = s"
  by (simp add: process_chunk_def)

lemma process_chunk_Cons: "process_chunk s (c # cs) = process_chunk (process_byte s c) cs"
  by (simp add: process_chunk_def)

lemma process_chunk_append: "process_chunk s (a @ b) = process_chunk (process_chunk s a) b"
  by (simp add: process_chunk_def)

text \<open>Bytes other than the terminator pile up in the buffer while there is room.\<close>

lemma process_chunk_text:
  "newline \<notin> set l \<Longrightarrow> length (buffer s) + length l < BUFFER_SIZE \<Longrightarrow>
   process_chunk s l = s\<lparr>buffer := buffer s @ l\<rparr>"
proof (induction l arbitrary: s)
  case Nil
  then show ?case by (simp add: process_chunk_Nil)
next
  case (Cons c l)
  have step: "process_byte s c = s\<lparr>buffer := buffer s @ [c]\<rparr>"
    using Cons.prems by (auto simp: process_byte_def)
  have "process_chunk (s\<lparr>buffer := buffer s @ [c]\<rparr>) l
        = (s\<lparr>buffer := buffer s @ [c]\<rparr>)\<lparr>buffer := buffer (s\<lparr>buffer := buffer s @ [c]\<rparr>) @ l\<rparr>"
    using Cons.prems by (intro Cons.IH) simp_all
  then show ?case by (simp add: process_chunk_Cons step)
qed

lemma process_chunk_wire:
  "newline \<notin> set l \<Longrightarrow> length (buffer s) + length l < BUFFER_SIZE \<Longrightarrow>
   process_chunk s (wire l) = process_line (s\<lparr>buffer := buffer s @ l\<rparr>)"
  by (simp add: wire_def process_chunk_append process_chunk_text process_chunk_Cons
      process_chunk_Nil process_byte_def)

lemma records_append: "records s (a @ b) = records s a @ records (process_chunk s a) b"
  by (induction a arbitrary: s) (simp_all add: process_chunk_Nil process_chunk_Cons)

lemma peaks_append: "peaks s (a @ b) = peaks s a @ peaks (process_chunk s a) b"
  by (induction a arbitrary: s) (simp_all add: process_chunk_Nil process_chunk_Cons)

subsection \<open>The stages of one line\<close>

lemma detect_peak_eq:
  "detect_peak s =
     (if accepts s then (if 0 \<le> last_peak s then update_hr (shift_peaks s) else shift_peaks s)
      else s)"
  by (simp add: detect_peak_def accepts_def shift_peaks_def Let_def)

lemma shift_peaks_simps [simp]:
  "prev_peak (shift_peaks s) = last_peak s"
  "last_peak (shift_peaks s) = sample_idx s"
  "sample_idx (shift_peaks s) = sample_idx s"
  "hr_bpm (shift_peaks s) = hr_bpm s"
  "hr_bpm_filt (shift_peaks s) = hr_bpm_filt s"
  "red_raw (shift_peaks s) = red_raw s"
  "ir_raw (shift_peaks s) = ir_raw s"
  "ir_filt (shift_peaks s) = ir_filt s"
  "prev_ir_filt (shift_peaks s) = prev_ir_filt s"
  "buffer (shift_peaks s) = buffer s"
  "csvFile (shift_peaks s) = csvFile s"
  "stderr (shift_peaks s) = stderr s"
  by (simp_all add: shift_peaks_def)

lemma delta_n_shift: "delta_n (shift_peaks s) = sample_idx s - last_peak s"
  by (simp add: delta_n_def)

lemma inst_hr_shift: "inst_hr (shift_peaks s) = 6000 / real_of_int (sample_idx s - last_peak s)"
  by (simp add: inst_hr_def period_sec_def delta_n_shift FS_def)

lemma inst_hr_upper:
  assumes "accepts s"
  shows "inst_hr (shift_peaks s) \<le> 6000 / 31"
proof -
  have "31 \<le> sample_idx s - last_peak s"
    using assms by (simp add: accepts_def refractory_n_eq)
  then have "(31::real) \<le> real_of_int (sample_idx s - last_peak s)"
    by linarith
  then show ?thesis
    unfolding inst_hr_shift by (intro divide_left_mono) simp_all
qed

lemma update_hr_other [simp]:
  "prev_peak (update_hr s) = prev_peak s"
  "last_peak (update_hr s) = last_peak s"
  "sample_idx (update_hr s) = sample_idx s"
  "red_raw (update_hr s) = red_raw s"
  "ir_raw (update_hr s) = ir_raw s"
  "ir_filt (update_hr s) = ir_filt s"
  "prev_ir_filt (update_hr s) = prev_ir_filt s"
  "buffer (update_hr s) = buffer s"
  "csvFile (update_hr s) = csvFile s"
  "stderr (update_hr s) = stderr s"
  by (simp_all add: update_hr_def Let_def)

lemma update_hr_fields:
  "hr_bpm (update_hr s) = (if plausible s then inst_hr s else hr_bpm s)"
  "hr_bpm_filt (update_hr s) =
     (if plausible s then hr_bpm_filt s + alpha_hr * (inst_hr s - hr_bpm_filt s)
      else hr_bpm_filt s)"
  by (simp_all add: update_hr_def Let_def)

lemma detect_peak_other [simp]:
  "sample_idx (detect_peak s) = sample_idx s"
  "red_raw (detect_peak s) = red_raw s"
  "ir_raw (detect_peak s) = ir_raw s"
  "ir_filt (detect_peak s) = ir_filt s"
  "prev_ir_filt (detect_peak s) = prev_ir_filt s"
  "buffer (detect_peak s) = buffer s"
  "csvFile (detect_peak s) = csvFile s"
  "stderr (detect_peak s) = stderr s"
  by (simp_all add: detect_peak_eq)

lemma detect_peak_peaks:
  "last_peak (detect_peak s) = (if accepts s then sample_idx s else last_peak s)"
  "prev_peak (detect_peak s) = (if accepts s then last_peak s else prev_peak s)"
  by (simp_all add: detect_peak_eq)

lemma detect_peak_hr:
  "hr_bpm (detect_peak s) = (if hr_runs s then inst_hr (shift_peaks s) else hr_bpm s)"
  "hr_bpm_filt (detect_peak s) =
     (if hr_runs s
      then hr_bpm_filt s + alpha_hr * (inst_hr (shift_peaks s) - hr_bpm_filt s)
      else hr_bpm_filt s)"
  by (simp_all add: detect_peak_eq update_hr_fields hr_runs_def)

lemma emit_fields [simp]:
  "ir_filt (emit s) = ir_filt s"
  "prev_ir_filt (emit s) = ir_filt s"
  "proc_val (emit s) = ir_filt s"
  "csvFile (emit s) = csvFile s @ [ir_filt s]"
  "buffer (emit s) = []"
  "sample_idx (emit s) = sample_idx s + 1"
  "last_peak (emit s) = last_peak s"
  "prev_peak (emit s) = prev_peak s"
  "hr_bpm (emit s) = hr_bpm s"
  "hr_bpm_filt (emit s) = hr_bpm_filt s"
  "stderr (emit s) = stderr s"
  "stdout (emit s) = stdout s"
  "red_raw (emit s) = red_raw s"
  "ir_raw (emit s) = ir_raw s"
  by (simp_all add: emit_def Let_def)

lemma read_sample_fields [simp]:
  "red_raw (read_sample s) = real_of_int (fst (parse_ints (buffer s)))"
  "ir_raw (read_sample s) = real_of_int (snd (parse_ints (buffer s)))"
  "stdout (read_sample s) =
     stdout s @ [Echo (fst (parse_ints (buffer s))) (snd (parse_ints (buffer s)))]"
  "ir_filt (read_sample s) = ir_filt s"
  "prev_ir_filt (read_sample s) = prev_ir_filt s"
  "sample_idx (read_sample s) = sample_idx s"
  "last_peak (read_sample s) = last_peak s"
  "prev_peak (read_sample s) = prev_peak s"
  "hr_bpm (read_sample s) = hr_bpm s"
  "hr_bpm_filt (read_sample s) = hr_bpm_filt s"
  "buffer (read_sample s) = buffer s"
  "csvFile (read_sample s) = csvFile s"
  "stderr (read_sample s) = stderr s"
  by (simp_all add: read_sample_def split: prod.split)

lemma lowpass_fields [simp]:
  "ir_filt (lowpass s) = ir_filt s + alpha_filt * (ir_raw s - ir_filt s)"
  "red_raw (lowpass s) = red_raw s"
  "ir_raw (lowpass s) = ir_raw s"
  "prev_ir_filt (lowpass s) = prev_ir_filt s"
  "sample_idx (lowpass s) = sample_idx s"
  "last_peak (lowpass s) = last_peak s"
  "prev_peak (lowpass s) = prev_peak s"
  "hr_bpm (lowpass s) = hr_bpm s"
  "hr_bpm_filt (lowpass s) = hr_bpm_filt s"
  "buffer (lowpass s) = buffer s"
  "csvFile (lowpass s) = csvFile s"
  "stdout (lowpass s) = stdout s"
  "stderr (lowpass s) = stderr s"
  by (simp_all add: lowpass_def)

lemma filtered_fields [simp]:
  "ir_filt (filtered s) =
     ir_filt s + alpha_filt * (real_of_int (snd (parse_ints (buffer s))) - ir_filt s)"
  "prev_ir_filt (filtered s) = prev_ir_filt s"
  "sample_idx (filtered s) = sample_idx s"
  "last_peak (filtered s) = last_peak s"
  "prev_peak (filtered s) = prev_peak s"
  "hr_bpm (filtered s) = hr_bpm s"
  "hr_bpm_filt (filtered s) = hr_bpm_filt s"
  by (simp_all add: filtered_def)

lemma process_line_filtered: "process_line s = emit (detect_peak (filtered s))"
  by (simp add: process_line_def filtered_def)

lemma process_line_fields:
  "red_raw (process_line s) = real_of_int (fst (parse_ints (buffer s)))"
  "ir_raw (process_line s) = real_of_int (snd (parse_ints (buffer s)))"
  "ir_filt (process_line s) = ir_filt (filtered s)"
  "prev_ir_filt (process_line s) = ir_filt (filtered s)"
  "csvFile (process_line s) = csvFile s @ [ir_filt (filtered s)]"
  "buffer (process_line s) = []"
  "sample_idx (process_line s) = sample_idx s + 1"
  "stderr (process_line s) = stderr s"
  "last_peak (process_line s) = (if accepts (filtered s) then sample_idx s else last_peak s)"
  "prev_peak (process_line s) = (if accepts (filtered s) then last_peak s else prev_peak s)"
  "hr_bpm (process_line s) =
     (if hr_runs (filtered s) then inst_hr (shift_peaks (filtered s)) else hr_bpm s)"
  "hr_bpm_filt (process_line s) =
     (if hr_runs (filtered s)
      then hr_bpm_filt s + alpha_hr * (inst_hr (shift_peaks (filtered s)) - hr_bpm_filt s)
      else hr_bpm_filt s)"
  by (simp_all add: process_line_filtered detect_peak_peaks detect_peak_hr)
     (simp_all add: filtered_def)

subsection \<open>Whole lines through the byte loop\<close>

lemma peaks_text: "newline \<notin> set l \<Longrightarrow> peaks s l = []"
  by (induction l arbitrary: s) auto

lemma peaks_wire:
  "newline \<notin> set l \<Longrightarrow> length (buffer s) + length l < BUFFER_SIZE \<Longrightarrow>
   peaks s (wire l) =
     (if accepts (filtered (s\<lparr>buffer := buffer s @ l\<rparr>)) then [sample_idx s] else [])"
  by (simp add: wire_def peaks_append peaks_text process_chunk_text)

lemma accepts_filtered:
  "accepts (filtered s) =
     (prev_ir_filt s < peak_thr \<and>
      peak_thr \<le> ir_filt s + alpha_filt * (real_of_int (snd (parse_ints (buffer s))) - ir_filt s) \<and>
      refractory_n < sample_idx s - last_peak s)"
  by (simp add: accepts_def crossing_def)

lemma filtered_buffer [simp]:
  "ir_filt (filtered (s\<lparr>buffer := l\<rparr>)) =
     ir_filt s + alpha_filt * (real_of_int (snd (parse_ints l)) - ir_filt s)"
  "accepts (filtered (s\<lparr>buffer := l\<rparr>)) =
     (prev_ir_filt s < peak_thr \<and>
      peak_thr \<le> ir_filt s + alpha_filt * (real_of_int (snd (parse_ints l)) - ir_filt s) \<and>
      refractory_n < sample_idx s - last_peak s)"
  "inst_hr (shift_peaks (filtered (s\<lparr>buffer := l\<rparr>))) =
     6000 / real_of_int (sample_idx s - last_peak s)"
  by (simp_all add: accepts_filtered inst_hr_shift)

lemma parse_examples:
  "parse_ints ''0,0'' = (0, 0)"
  "parse_ints ''0,50'' = (0, 50)"
  "parse_ints ''0,-40'' = (0, - 40)"
  "parse_ints ''abc,def'' = (0, 0)"
  "parse_ints ''100,50'' = (100, 50)"
  by (simp_all add: parse_defs)

lemma newline_notin:
  "newline \<notin> set ''0,0''" "newline \<notin> set ''0,50''" "newline \<notin> set ''0,-40''"
  by (simp_all add: newline_def)

text \<open>A line \<^verbatim>\<open>0,0\<close> on a filter at rest only advances the sample count.\<close>

lemma idle_line:
  assumes "ir_filt s = 0" and "prev_ir_filt s = 0" and "buffer s = []"
  shows "ir_filt (process_chunk s (wire ''0,0'')) = 0"
    and "prev_ir_filt (process_chunk s (wire ''0,0'')) = 0"
    and "buffer (process_chunk s (wire ''0,0'')) = []"
    and "sample_idx (process_chunk s (wire ''0,0'')) = sample_idx s + 1"
    and "last_peak (process_chunk s (wire ''0,0'')) = last_peak s"
    and "prev_peak (process_chunk s (wire ''0,0'')) = prev_peak s"
    and "hr_bpm (process_chunk s (wire ''0,0'')) = hr_bpm s"
    and "hr_bpm_filt (process_chunk s (wire ''0,0'')) = hr_bpm_filt s"
    and "peaks s (wire ''0,0'') = []"
proof -
  have w: "process_chunk s (wire ''0,0'') = process_line (s\<lparr>buffer := ''0,0''\<rparr>)"
    using process_chunk_wire [of "''0,0''" s] assms(3)
    by (simp add: newline_def BUFFER_SIZE_def)
  have p: "peaks s (wire ''0,0'') =
      (if accepts (filtered (s\<lparr>buffer := ''0,0''\<rparr>)) then [sample_idx s] else [])"
    using peaks_wire [of "''0,0''" s] assms(3)
    by (simp add: newline_def BUFFER_SIZE_def)
  show "ir_filt (process_chunk s (wire ''0,0'')) = 0"
    and "prev_ir_filt (process_chunk s (wire ''0,0'')) = 0"
    and "buffer (process_chunk s (wire ''0,0'')) = []"
    and "sample_idx (process_chunk s (wire ''0,0'')) = sample_idx s + 1"
    and "last_peak (process_chunk s (wire ''0,0'')) = last_peak s"
    and "prev_peak (process_chunk s (wire ''0,0'')) = prev_peak s"
    and "hr_bpm (process_chunk s (wire ''0,0'')) = hr_bpm s"
    and "hr_bpm_filt (process_chunk s (wire ''0,0'')) = hr_bpm_filt s"
    and "peaks s (wire ''0,0'') = []"
    unfolding w p using assms(1,2)
    by (simp_all add: process_line_fields hr_runs_def parse_examples peak_thr_def)
qed

lemma idle_run:
  assumes "ir_filt s = 0" and "prev_ir_filt s = 0" and "buffer s = []"
  shows "ir_filt (process_chunk s (idle n)) = 0 \<and>
         prev_ir_filt (process_chunk s (idle n)) = 0 \<and>
         buffer (process_chunk s (idle n)) = [] \<and>
         sample_idx (process_chunk s (idle n)) = sample_idx s + int n \<and>
         last_peak (process_chunk s (idle n)) = last_peak s \<and>
         prev_peak (process_chunk s (idle n)) = prev_peak s \<and>
         hr_bpm (process_chunk s (idle n)) = hr_bpm s \<and>
         hr_bpm_filt (process_chunk s (idle n)) = hr_bpm_filt s \<and>
         peaks s (idle n) = []"
  using assms
proof (induction n arbitrary: s)
  case 0
  then show ?case by (simp add: idle_def process_chunk_Nil)
next
  case (Suc n)
  have unfold: "idle (Suc n) = wire ''0,0'' @ idle n"
    by (simp add: idle_def)
  note l = idle_line [OF Suc.prems]
  note r = Suc.IH [OF l(1) l(2) l(3)]
  show ?case
    unfolding unfold process_chunk_append peaks_append using l r by simp
qed

lemma line_on_empty:
  assumes "buffer s = []" and "newline \<notin> set l" and "length l < BUFFER_SIZE"
  shows "process_chunk s l = s\<lparr>buffer := l\<rparr>"
    and "process_chunk s (wire l) = process_line (s\<lparr>buffer := l\<rparr>)"
    and "peaks s (wire l) =
           (if accepts (filtered (s\<lparr>buffer := l\<rparr>)) then [sample_idx s] else [])"
  using assms process_chunk_text [of l s] process_chunk_wire [of l s] peaks_wire [of l s]
  by simp_all

subsection \<open>Runs from the initial state\<close>

lemma at_rest_init: "at_rest init"
  by (simp add: at_rest_def init_def)

lemma idle_rest:
  assumes "at_rest s"
  shows "at_rest (process_chunk s (idle n))"
    and "sample_idx (process_chunk s (idle n)) = sample_idx s + int n"
    and "last_peak (process_chunk s (idle n)) = last_peak s"
    and "prev_peak (process_chunk s (idle n)) = prev_peak s"
    and "hr_bpm (process_chunk s (idle n)) = hr_bpm s"
    and "hr_bpm_filt (process_chunk s (idle n)) = hr_bpm_filt s"
    and "peaks s (idle n) = []"
  using assms idle_run [of s n] by (simp_all add: at_rest_def)

text \<open>The line \<^verbatim>\<open>0,50\<close> arriving on a filter at rest, before its terminator.\<close>

lemma pending_peak_line:
  assumes "at_rest u"
  shows "process_chunk u ''0,50'' = u\<lparr>buffer := ''0,50''\<rparr>"
    and "process_chunk u (wire ''0,50'') = process_line (u\<lparr>buffer := ''0,50''\<rparr>)"
    and "peaks u (wire ''0,50'') =
           (if refractory_n < sample_idx u - last_peak u then [sample_idx u] else [])"
    and "crossing (filtered (u\<lparr>buffer := ''0,50''\<rparr>))"
    and "accepts (filtered (u\<lparr>buffer := ''0,50''\<rparr>))
           = (refractory_n < sample_idx u - last_peak u)"
    and "ir_filt (process_line (u\<lparr>buffer := ''0,50''\<rparr>)) = 10"
proof -
  have e: "buffer u = []" and f: "ir_filt u = 0" "prev_ir_filt u = 0"
    using assms by (simp_all add: at_rest_def)
  have n: "newline \<notin> set ''0,50''" and l: "length ''0,50'' < BUFFER_SIZE"
    by (simp_all add: newline_def BUFFER_SIZE_def)
  note w = line_on_empty [OF e n l]
  show "process_chunk u ''0,50'' = u\<lparr>buffer := ''0,50''\<rparr>"
    by (rule w(1))
  show "process_chunk u (wire ''0,50'') = process_line (u\<lparr>buffer := ''0,50''\<rparr>)"
    by (rule w(2))
  show a: "accepts (filtered (u\<lparr>buffer := ''0,50''\<rparr>))
           = (refractory_n < sample_idx u - last_peak u)"
    using f by (simp add: parse_examples peak_thr_def alpha_filt_def)
  show "peaks u (wire ''0,50'') =
           (if refractory_n < sample_idx u - last_peak u then [sample_idx u] else [])"
    unfolding w(3) a ..
  show "crossing (filtered (u\<lparr>buffer := ''0,50''\<rparr>))"
    using f by (simp add: crossing_def parse_examples peak_thr_def alpha_filt_def)
  show "ir_filt (process_line (u\<lparr>buffer := ''0,50''\<rparr>)) = 10"
    using f by (simp add: process_line_fields parse_examples alpha_filt_def)
qed

text \<open>The line \<^verbatim>\<open>0,-40\<close> brings a filter at 10 back to rest and touches nothing else.\<close>

lemma settle_line:
  assumes "ir_filt v = 10" and "prev_ir_filt v = 10" and "buffer v = []"
  shows "at_rest (process_chunk v (wire ''0,-40''))"
    and "sample_idx (process_chunk v (wire ''0,-40'')) = sample_idx v + 1"
    and "last_peak (process_chunk v (wire ''0,-40'')) = last_peak v"
    and "prev_peak (process_chunk v (wire ''0,-40'')) = prev_peak v"
    and "hr_bpm (process_chunk v (wire ''0,-40'')) = hr_bpm v"
    and "hr_bpm_filt (process_chunk v (wire ''0,-40'')) = hr_bpm_filt v"
    and "peaks v (wire ''0,-40'') = []"
proof -
  have n: "newline \<notin> set ''0,-40''" and l: "length ''0,-40'' < BUFFER_SIZE"
    by (simp_all add: newline_def BUFFER_SIZE_def)
  note w = line_on_empty [OF assms(3) n l]
  show "at_rest (process_chunk v (wire ''0,-40''))"
    and "sample_idx (process_chunk v (wire ''0,-40'')) = sample_idx v + 1"
    and "last_peak (process_chunk v (wire ''0,-40'')) = last_peak v"
    and "prev_peak (process_chunk v (wire ''0,-40'')) = prev_peak v"
    and "hr_bpm (process_chunk v (wire ''0,-40'')) = hr_bpm v"
    and "hr_bpm_filt (process_chunk v (wire ''0,-40'')) = hr_bpm_filt v"
    and "peaks v (wire ''0,-40'') = []"
    unfolding w(2) w(3) using assms(1,2)
    by (simp_all add: at_rest_def process_line_fields hr_runs_def parse_examples
        peak_thr_def alpha_filt_def)
qed

text \<open>
  A beat: \<open>k\<close> idle lines, the line that crosses the threshold at sample
  \<^verbatim>\<open>sample_idx + k\<close>, and the line that brings the filter back to rest.
\<close>

lemma beat_run:
  fixes k :: nat
  assumes "at_rest s"
  defines "v \<equiv> process_line ((process_chunk s (idle k))\<lparr>buffer := ''0,50''\<rparr>)"
  shows "at_rest (process_chunk s (beat k))"
    and "sample_idx (process_chunk s (beat k)) = sample_idx s + int k + 2"
    and "last_peak (process_chunk s (beat k)) = last_peak v"
    and "prev_peak (process_chunk s (beat k)) = prev_peak v"
    and "hr_bpm (process_chunk s (beat k)) = hr_bpm v"
    and "hr_bpm_filt (process_chunk s (beat k)) = hr_bpm_filt v"
    and "peaks s (beat k) =
           (if refractory_n < sample_idx s + int k - last_peak s then [sample_idx s + int k]
            else [])"
proof -
  define u where "u = process_chunk s (idle k)"
  have vu: "v = process_line (u\<lparr>buffer := ''0,50''\<rparr>)"
    by (simp add: v_def u_def)
  note i = idle_rest [OF assms(1), of k, folded u_def]
  note p = pending_peak_line [OF i(1), folded vu]
  have v: "ir_filt v = 10" "prev_ir_filt v = 10" "buffer v = []"
    "sample_idx v = sample_idx s + int k + 1"
    using p(6) i(2) by (simp_all add: vu process_line_fields)
  note t = settle_line [OF v(1,2,3)]
  have c: "process_chunk s (beat k) = process_chunk v (wire ''0,-40'')"
    by (simp add: beat_def process_chunk_append u_def [symmetric] p(2))
  have pk: "peaks s (beat k) = peaks s (idle k) @ peaks u (wire ''0,50'') @ peaks v (wire ''0,-40'')"
    by (simp add: beat_def peaks_append process_chunk_append u_def [symmetric] p(2))
  show "at_rest (process_chunk s (beat k))"
    and "sample_idx (process_chunk s (beat k)) = sample_idx s + int k + 2"
    and "last_peak (process_chunk s (beat k)) = last_peak v"
    and "prev_peak (process_chunk s (beat k)) = prev_peak v"
    and "hr_bpm (process_chunk s (beat k)) = hr_bpm v"
    and "hr_bpm_filt (process_chunk s (beat k)) = hr_bpm_filt v"
    unfolding c using t v(4) by simp_all
  show "peaks s (beat k) =
           (if refractory_n < sample_idx s + int k - last_peak s then [sample_idx s + int k]
            else [])"
    unfolding pk using i(7) t(7) p(3) i(2,3) by simp
qed

text \<open>From the initial state: a first peak at sample 10, a second at sample 60.\<close>

lemma init_fields:
  "sample_idx init = 0" "last_peak init = - 1000" "prev_peak init = - 1000"
  "hr_bpm init = 0" "hr_bpm_filt init = 0" "buffer init = []" "ir_filt init = 0"
  "prev_ir_filt init = 0" "csvFile init = []" "stderr init = []"
  by (simp_all add: init_def)

lemma first_beat:
  "at_rest (process_chunk init (beat 10))"
  "sample_idx (process_chunk init (beat 10)) = 12"
  "last_peak (process_chunk init (beat 10)) = 10"
  "prev_peak (process_chunk init (beat 10)) = - 1000"
  "hr_bpm (process_chunk init (beat 10)) = 0"
  "hr_bpm_filt (process_chunk init (beat 10)) = 0"
  "peaks init (beat 10) = [10]"
proof -
  define u where "u = process_chunk init (idle 10)"
  note i = idle_rest [OF at_rest_init, of 10, folded u_def]
  note p = pending_peak_line [OF i(1)]
  note b = beat_run [OF at_rest_init, of 10, folded u_def]
  have a: "accepts (filtered (u\<lparr>buffer := ''0,50''\<rparr>))"
    unfolding p(5) i(2,3) by (simp add: init_fields refractory_n_eq)
  have h: "\<not> hr_runs (filtered (u\<lparr>buffer := ''0,50''\<rparr>))"
    unfolding hr_runs_def by (simp add: i(3) init_fields)
  have v: "last_peak (process_line (u\<lparr>buffer := ''0,50''\<rparr>)) = 10"
    "prev_peak (process_line (u\<lparr>buffer := ''0,50''\<rparr>)) = - 1000"
    "hr_bpm (process_line (u\<lparr>buffer := ''0,50''\<rparr>)) = 0"
    "hr_bpm_filt (process_line (u\<lparr>buffer := ''0,50''\<rparr>)) = 0"
    using a h by (simp_all add: process_line_fields i init_fields)
  show "at_rest (process_chunk init (beat 10))"
    by (rule b(1))
  show "sample_idx (process_chunk init (beat 10)) = 12"
    unfolding b(2) by (simp add: init_fields)
  show "last_peak (process_chunk init (beat 10)) = 10"
    "prev_peak (process_chunk init (beat 10)) = - 1000"
    "hr_bpm (process_chunk init (beat 10)) = 0"
    "hr_bpm_filt (process_chunk init (beat 10)) = 0"
    unfolding b(3-6) by (rule v)+
  show "peaks init (beat 10) = [10]"
    unfolding b(7) by (simp add: init_fields refractory_n_eq)
qed

lemma second_beat:
  "at_rest (process_chunk init (beat 10 @ beat 48))"
  "sample_idx (process_chunk init (beat 10 @ beat 48)) = 62"
  "last_peak (process_chunk init (beat 10 @ beat 48)) = 60"
  "prev_peak (process_chunk init (beat 10 @ beat 48)) = 10"
  "hr_bpm (process_chunk init (beat 10 @ beat 48)) = 120"
  "hr_bpm_filt (process_chunk init (beat 10 @ beat 48)) = 36"
  "peaks init (beat 10 @ beat 48) = [10, 60]"
proof -
  define s where "s = process_chunk init (beat 10)"
  define u where "u = process_chunk s (idle 48)"
  note f = first_beat [folded s_def]
  note i = idle_rest [OF f(1), of 48, folded u_def]
  note p = pending_peak_line [OF i(1)]
  note b = beat_run [OF f(1), of 48, folded u_def]
  have a: "accepts (filtered (u\<lparr>buffer := ''0,50''\<rparr>))"
    unfolding p(5) i(2,3) f(2,3) by (simp add: refractory_n_eq)
  have ih: "inst_hr (shift_peaks (filtered (u\<lparr>buffer := ''0,50''\<rparr>))) = 120"
    by (simp add: i(2,3) f(2,3))
  have h: "hr_runs (filtered (u\<lparr>buffer := ''0,50''\<rparr>))"
    unfolding hr_runs_def plausible_def ih using a
    by (simp add: i(3) f(3) min_hr_bpm_def max_hr_bpm_def)
  have v: "last_peak (process_line (u\<lparr>buffer := ''0,50''\<rparr>)) = 60"
    "prev_peak (process_line (u\<lparr>buffer := ''0,50''\<rparr>)) = 10"
    "hr_bpm (process_line (u\<lparr>buffer := ''0,50''\<rparr>)) = 120"
    "hr_bpm_filt (process_line (u\<lparr>buffer := ''0,50''\<rparr>)) = 36"
    using a h ih by (simp_all add: process_line_fields i f alpha_hr_def)
  have c: "process_chunk init (beat 10 @ beat 48) = process_chunk s (beat 48)"
    by (simp add: process_chunk_append s_def)
  have pk: "peaks init (beat 10 @ beat 48) = [10] @ peaks s (beat 48)"
    by (simp add: peaks_append s_def [symmetric] f(7))
  show "at_rest (process_chunk init (beat 10 @ beat 48))"
    unfolding c by (rule b(1))
  show "sample_idx (process_chunk init (beat 10 @ beat 48)) = 62"
    unfolding c b(2) by (simp add: f(2))
  show "last_peak (process_chunk init (beat 10 @ beat 48)) = 60"
    "prev_peak (process_chunk init (beat 10 @ beat 48)) = 10"
    "hr_bpm (process_chunk init (beat 10 @ beat 48)) = 120"
    "hr_bpm_filt (process_chunk init (beat 10 @ beat 48)) = 36"
    unfolding c b(3-6) by (rule v)+
  show "peaks init (beat 10 @ beat 48) = [10, 60]"
    unfolding pk b(7) by (simp add: f(2,3) refractory_n_eq)
qed

text \<open>After a run that left the filter at rest: \<open>m\<close> idle lines, then \<^verbatim>\<open>0,50\<close> pending.\<close>

lemma pending_fields:
  fixes m :: nat
  assumes "at_rest r"
  defines "s \<equiv> process_chunk r (idle m @ ''0,50'')"
  shows "sample_idx s = sample_idx r + int m"
    and "last_peak s = last_peak r"
    and "prev_peak s = prev_peak r"
    and "hr_bpm s = hr_bpm r"
    and "hr_bpm_filt s = hr_bpm_filt r"
    and "crossing (filtered s)"
    and "accepts (filtered s) = (refractory_n < sample_idx r + int m - last_peak r)"
    and "process_chunk r (idle m @ wire ''0,50'') = process_line s"
    and "peaks r (idle m @ wire ''0,50'') =
           (if refractory_n < sample_idx r + int m - last_peak r then [sample_idx r + int m]
            else [])"
proof -
  define u where "u = process_chunk r (idle m)"
  note i = idle_rest [OF assms(1), of m, folded u_def]
  note p = pending_peak_line [OF i(1)]
  have s: "s = u\<lparr>buffer := ''0,50''\<rparr>"
    by (simp add: s_def process_chunk_append u_def [symmetric] p(1))
  show "sample_idx s = sample_idx r + int m" "last_peak s = last_peak r"
    "prev_peak s = prev_peak r" "hr_bpm s = hr_bpm r" "hr_bpm_filt s = hr_bpm_filt r"
    by (simp_all add: s i)
  show "crossing (filtered s)"
    unfolding s by (rule p(4))
  show "accepts (filtered s) = (refractory_n < sample_idx r + int m - last_peak r)"
    unfolding s p(5) by (simp add: i)
  show "process_chunk r (idle m @ wire ''0,50'') = process_line s"
    unfolding s by (simp add: process_chunk_append u_def [symmetric] p(2))
  show "peaks r (idle m @ wire ''0,50'') =
           (if refractory_n < sample_idx r + int m - last_peak r then [sample_idx r + int m]
            else [])"
    by (simp add: peaks_append u_def [symmetric] p(3) i)
qed

lemma before_second_peak_fields:
  "sample_idx before_second_peak = 60" "last_peak before_second_peak = 10"
  "prev_peak before_second_peak = - 1000"
  "hr_bpm before_second_peak = 0" "hr_bpm_filt before_second_peak = 0"
  "accepts (filtered before_second_peak)"
  "process_chunk init (beat 10 @ idle 48 @ wire ''0,50'') = process_line before_second_peak"
  "peaks init (beat 10 @ idle 48 @ wire ''0,50'') = [10, 60]"
proof -
  define r where "r = process_chunk init (beat 10)"
  note f = first_beat [folded r_def]
  have s: "before_second_peak = process_chunk r (idle 48 @ ''0,50'')"
    by (simp add: before_second_peak_def process_chunk_append r_def)
  note p = pending_fields [OF f(1), of 48, folded s]
  show "sample_idx before_second_peak = 60" "last_peak before_second_peak = 10"
    "prev_peak before_second_peak = - 1000"
    "hr_bpm before_second_peak = 0" "hr_bpm_filt before_second_peak = 0"
    by (simp_all add: p f)
  show "accepts (filtered before_second_peak)"
    unfolding p(7) by (simp add: f refractory_n_eq)
  show "process_chunk init (beat 10 @ idle 48 @ wire ''0,50'') = process_line before_second_peak"
    using p(8) by (simp add: process_chunk_append r_def)
  show "peaks init (beat 10 @ idle 48 @ wire ''0,50'') = [10, 60]"
    by (simp add: peaks_append [of init "beat 10"] r_def [symmetric] f p(9) refractory_n_eq)
qed

lemma before_slow_peak_fields:
  "sample_idx before_slow_peak = 210" "last_peak before_slow_peak = 60"
  "prev_peak before_slow_peak = 10"
  "hr_bpm before_slow_peak = 120" "hr_bpm_filt before_slow_peak = 36"
  "accepts (filtered before_slow_peak)"
proof -
  define r where "r = process_chunk init (beat 10 @ beat 48)"
  note f = second_beat [folded r_def]
  have s: "before_slow_peak = process_chunk r (idle 148 @ ''0,50'')"
    using process_chunk_append [of init "beat 10 @ beat 48" "idle 148 @ ''0,50''"]
    by (simp add: before_slow_peak_def r_def)
  note p = pending_fields [OF f(1), of 148, folded s]
  show "sample_idx before_slow_peak = 210" "last_peak before_slow_peak = 60"
    "prev_peak before_slow_peak = 10"
    "hr_bpm before_slow_peak = 120" "hr_bpm_filt before_slow_peak = 36"
    by (simp_all add: p f)
  show "accepts (filtered before_slow_peak)"
    unfolding p(7) by (simp add: f refractory_n_eq)
qed

lemma before_early_crossing_fields:
  "sample_idx before_early_crossing = 15" "last_peak before_early_crossing = 10"
  "prev_peak before_early_crossing = - 1000"
  "crossing (filtered before_early_crossing)"
  "peaks init (beat 10 @ idle 3 @ wire ''0,50'') = [10]"
proof -
  define r where "r = process_chunk init (beat 10)"
  note f = first_beat [folded r_def]
  have s: "before_early_crossing = process_chunk r (idle 3 @ ''0,50'')"
    by (simp add: before_early_crossing_def process_chunk_append r_def)
  note p = pending_fields [OF f(1), of 3, folded s]
  show "sample_idx before_early_crossing = 15" "last_peak before_early_crossing = 10"
    "prev_peak before_early_crossing = - 1000"
    by (simp_all add: p f)
  show "crossing (filtered before_early_crossing)"
    by (rule p(6))
  show "peaks init (beat 10 @ idle 3 @ wire ''0,50'') = [10]"
    by (simp add: peaks_append [of init "beat 10"] r_def [symmetric] f p(9) refractory_n_eq)
qed

subsection \<open>Completed lines and the full buffer\<close>

lemma records_text: "newline \<notin> set l \<Longrightarrow> records s l = []"
  by (induction l arbitrary: s) auto

lemma records_wire:
  "newline \<notin> set l \<Longrightarrow> length (buffer s) + length l < BUFFER_SIZE \<Longrightarrow>
   records s (wire l) = [buffer s @ l]"
  by (simp add: wire_def records_append records_text process_chunk_text)

lemma overflow_at_capacity:
  assumes "newline \<notin> set j" and "j \<noteq> []" and "length (buffer s) + length j = BUFFER_SIZE"
  shows "process_chunk s j = s\<lparr>stderr := stderr s @ [Overflow], buffer := []\<rparr>"
    and "records s j = []"
proof -
  have j: "j = butlast j @ [last j]"
    using assms(2) by simp
  have nb: "newline \<notin> set (butlast j)"
    using assms(1) by (auto dest: in_set_butlastD)
  have nl: "last j \<noteq> newline"
    using assms(1,2) by (metis last_in_set)
  have len: "length (buffer s) + length (butlast j) = BUFFER_SIZE - 1"
    using assms(2,3) by (cases j rule: rev_cases) auto
  then have fit: "length (buffer s) + length (butlast j) < BUFFER_SIZE"
    by (simp add: BUFFER_SIZE_def)
  have t: "process_chunk s (butlast j) = s\<lparr>buffer := buffer s @ butlast j\<rparr>"
    by (rule process_chunk_text [OF nb fit])
  have "process_chunk s j = process_byte (s\<lparr>buffer := buffer s @ butlast j\<rparr>) (last j)"
    by (subst j) (simp add: process_chunk_append t process_chunk_Cons process_chunk_Nil)
  then show "process_chunk s j = s\<lparr>stderr := stderr s @ [Overflow], buffer := []\<rparr>"
    using nl len by (simp add: process_byte_def)
  show "records s j = []"
    by (rule records_text [OF assms(1)])
qed

subsection \<open>Lines that do not parse\<close>



lemma conversions_examples:
  "conversions (sscanf_d_d (c_string ''abc,def'')) = 0"
  "conversions (sscanf_d_d (c_string ''12,x'')) = 1"
  "sscanf_d_d (c_string ''100,50'') = (Some 100, Some 50)"
  "parse_ints ''12,x'' = (12, 0)"
  "parse_ints ''x100,50'' = (0, 0)"
  by (simp_all add: parse_defs)








lemma parse_stored:
  "sscanf_d_d (c_string l) = (Some a, Some b) \<Longrightarrow> parse_ints l = (a, b)"
  by (simp add: parse_ints_def)

lemma junk_facts:
  "newline \<notin> set (junk 1024)" "junk 1024 \<noteq> []" "length (junk 1024) = BUFFER_SIZE"
  "junk 1025 = junk 1024 @ ''x''" "newline \<notin> set ''x''" "newline \<notin> set ''100,50''"
  "newline \<notin> set ''x100,50''"
proof -
  have "junk 1025 = junk (1024 + 1)"
    by simp
  also have "\<dots> = junk 1024 @ ''x''"
    unfolding junk_def replicate_add by simp
  finally show "junk 1025 = junk 1024 @ ''x''" .
  show "junk 1024 \<noteq> []"
    by (simp add: junk_def)
qed (simp_all add: junk_def newline_def BUFFER_SIZE_def)

subsection \<open>The polling loop\<close>

text \<open>
  The test \<^verbatim>\<open>(int)n_bytes < 0\<close> sits in the branch taken when \<^verbatim>\<open>n_bytes > 0\<close> is
  false. For an unsigned word that leaves \<^verbatim>\<open>n_bytes == 0\<close>, which is not negative.
\<close>

lemma poll_step_eq: "poll_step s p = (Continue, process_chunk s (delivered p))"
  by (cases p) (auto simp: poll_step_def delivered_def process_chunk_Nil word_greater_zero_iff)

lemma main_loop_eq:
  "main_loop s polls = (Continue, process_chunk s (concat (map delivered polls)))"
  by (induction polls arbitrary: s)
    (simp_all add: poll_step_eq process_chunk_Nil process_chunk_append)

lemma records_polled_eq: "records_polled s polls = records s (concat (map delivered polls))"
  by (induction polls arbitrary: s) (simp_all add: poll_step_eq records_append)

lemma delivered_split_polls:
  "concat (map delivered split_polls) = wire ''12,34'' @ ''56,''"
  by (simp add: split_polls_def delivered_def wire_def)

lemma delivered_poll_of: "length c \<le> CHUNK_SIZE \<Longrightarrow> delivered (poll_of c) = c"
proof -
  assume "length c \<le> CHUNK_SIZE"
  then have "length c < 2 ^ 32"
    by (simp add: CHUNK_SIZE_def)
  then have "unat (of_nat (length c) :: 32 word) = length c"
    by (simp add: unat_of_nat)
  then show ?thesis
    by (simp add: delivered_def poll_of_def)
qed

lemma delivered_polls_of:
  "\<forall>c\<in>set cs. length c \<le> CHUNK_SIZE \<Longrightarrow> concat (map delivered (map poll_of cs)) = concat cs"
  by (induction cs) (simp_all add: delivered_poll_of del: map_map)

section \<open>The line reassembler\<close>

text \<open>
  Claim C4. However a byte sequence is split into the chunks of successive polls, polls
  of zero bytes included, the lines completed over the polls are the lines completed
  when the byte loop runs once over all the bytes, and the variables of the program
  end in the same values. This holds for any list of polls, and so for any list of
  chunks of at most \<^verbatim>\<open>CHUNK_SIZE\<close> bytes, each delivered by one poll.
\<close>

theorem chunk_boundary_invariance:
  "records_polled s polls = records s (concat (map delivered polls)) \<and>
   main_loop s polls = (Continue, process_chunk s (concat (map delivered polls))) \<and>
   ((\<forall>c\<in>set chunks. length c \<le> CHUNK_SIZE) \<longrightarrow>
      records_polled s (map poll_of chunks) = records s (concat chunks) \<and>
      main_loop s (map poll_of chunks) = (Continue, process_chunk s (concat chunks)))"
  by (simp add: records_polled_eq main_loop_eq delivered_polls_of del: map_map)

theorem chunk_boundary_invariance_witness:
  "length ''12,'' \<le> CHUNK_SIZE \<and> length '''' \<le> CHUNK_SIZE \<and>
   length (''34'' @ [newline] @ ''5'') \<le> CHUNK_SIZE \<and> length ''6,'' \<le> CHUNK_SIZE \<and>
   concat split_chunks = wire ''12,34'' @ ''56,'' \<and>
   records_polled init (map poll_of split_chunks) = [''12,34''] \<and>
   records init (wire ''12,34'' @ ''56,'') = [''12,34''] \<and>
   main_loop init (map poll_of split_chunks)
     = (Continue, process_chunk init (wire ''12,34'' @ ''56,'')) \<and>
   concat (map delivered split_polls) = wire ''12,34'' @ ''56,'' \<and>
   records_polled init split_polls = [''12,34''] \<and>
   buffer (process_chunk init (wire ''12,34'' @ ''56,'')) = ''56,''"
proof -
  have e: "buffer init = []"
    by (simp add: init_def)
  have n: "newline \<notin> set ''12,34''" "newline \<notin> set ''56,''"
    by (simp_all add: newline_def)
  have l: "length ''12,34'' < BUFFER_SIZE" "length ''56,'' < BUFFER_SIZE"
    by (simp_all add: BUFFER_SIZE_def)
  have r: "records init (wire ''12,34'' @ ''56,'') = [''12,34'']"
    using records_wire [OF n(1), of init] records_text [OF n(2)] e l
    by (simp add: records_append)
  have b: "buffer (process_chunk init (wire ''12,34'' @ ''56,'')) = ''56,''"
    unfolding process_chunk_append line_on_empty(2) [OF e n(1) l(1)]
    using process_chunk_text [OF n(2), of "process_line (init\<lparr>buffer := ''12,34''\<rparr>)"] l
    by (simp add: process_line_fields)
  have c: "concat split_chunks = wire ''12,34'' @ ''56,''"
    by (simp add: split_chunks_def wire_def)
  have k: "\<forall>c\<in>set split_chunks. length c \<le> CHUNK_SIZE"
    by (simp add: split_chunks_def CHUNK_SIZE_def)
  have k': "length ''12,'' \<le> CHUNK_SIZE" "length '''' \<le> CHUNK_SIZE"
    "length (''34'' @ [newline] @ ''5'') \<le> CHUNK_SIZE" "length ''6,'' \<le> CHUNK_SIZE"
    by (simp_all add: CHUNK_SIZE_def)
  from chunk_boundary_invariance [of init split_polls split_chunks]
  have "records_polled init split_polls = [''12,34'']"
    and "records_polled init (map poll_of split_chunks) = [''12,34'']"
    and "main_loop init (map poll_of split_chunks)
      = (Continue, process_chunk init (wire ''12,34'' @ ''56,''))"
    using k r c by (simp_all add: delivered_split_polls)
  then show ?thesis
    using r b c k' delivered_split_polls by simp
qed

section \<open>Buffer overflow\<close>

text \<open>
  Claim C5, as the program has it. Let the pending bytes and the bytes \<open>j\<close>, none a terminator,
  together number \<^verbatim>\<open>BUFFER_SIZE\<close>: the last byte of \<open>j\<close> is the one that does not fit.
  Then the overflow message is written to stderr once, the buffer is emptied, no line
  is completed and nothing else changes; the bytes \<open>t\<close> that follow are accumulated
  from an empty buffer. A well-formed line \<open>l\<close> parses into its two integers when it
  starts on an empty buffer: right after the byte that overflowed, or after the
  terminator that completes \<open>t\<close> as a line of its own.
\<close>

theorem overflow_discards_pending:
  assumes "newline \<notin> set j" and "j \<noteq> []" and "length (buffer s) + length j = BUFFER_SIZE"
    and "newline \<notin> set t" and "length t < BUFFER_SIZE"
    and "newline \<notin> set l" and "length l < BUFFER_SIZE"
    and "sscanf_d_d (c_string l) = (Some a, Some b)"
  shows "process_chunk s j = s\<lparr>stderr := stderr s @ [Overflow], buffer := []\<rparr> \<and>
         records s (j @ t) = [] \<and>
         buffer (process_chunk s (j @ t)) = t \<and>
         records s (j @ wire l) = [l] \<and>
         red_raw (process_chunk s (j @ wire l)) = real_of_int a \<and>
         ir_raw (process_chunk s (j @ wire l)) = real_of_int b \<and>
         records s (j @ wire t @ wire l) = [t, l] \<and>
         red_raw (process_chunk s (j @ wire t @ wire l)) = real_of_int a \<and>
         ir_raw (process_chunk s (j @ wire t @ wire l)) = real_of_int b \<and>
         stderr (process_chunk s (j @ wire t @ wire l)) = stderr s @ [Overflow]"
proof -
  define s0 where "s0 = s\<lparr>stderr := stderr s @ [Overflow], buffer := []\<rparr>"
  have o: "process_chunk s j = s0" and r: "records s j = []"
    unfolding s0_def by (rule overflow_at_capacity [OF assms(1-3)])+
  have e: "buffer s0 = []" and se: "stderr s0 = stderr s @ [Overflow]"
    by (simp_all add: s0_def)
  have p: "parse_ints l = (a, b)"
    by (rule parse_stored [OF assms(8)])
  note tl = line_on_empty [OF e assms(4,5)]
  have rt: "records s0 t = []"
    by (rule records_text [OF assms(4)])
  have rwl: "records s0 (wire l) = [l]" and rwt: "records s0 (wire t) = [t]"
    using records_wire [of l s0] records_wire [of t s0] assms(4-7) e by simp_all
  note ll = line_on_empty [OF e assms(6,7)]
  define s1 where "s1 = process_line (s0\<lparr>buffer := t\<rparr>)"
  have e1: "buffer s1 = []" and se1: "stderr s1 = stderr s @ [Overflow]"
    by (simp_all add: s1_def process_line_fields se)
  note l1 = line_on_empty [OF e1 assms(6,7)]
  have rwl1: "records s1 (wire l) = [l]"
    using records_wire [of l s1] assms(6,7) e1 by simp
  have a1: "records s (j @ t) = []" "buffer (process_chunk s (j @ t)) = t"
    by (simp_all add: records_append process_chunk_append o r rt tl(1))
  have a2: "records s (j @ wire l) = [l]"
    "red_raw (process_chunk s (j @ wire l)) = real_of_int a"
    "ir_raw (process_chunk s (j @ wire l)) = real_of_int b"
    by (simp_all add: records_append process_chunk_append o r rwl ll(2) process_line_fields p)
  have a3: "records s (j @ wire t @ wire l) = [t, l]"
    "red_raw (process_chunk s (j @ wire t @ wire l)) = real_of_int a"
    "ir_raw (process_chunk s (j @ wire t @ wire l)) = real_of_int b"
    "stderr (process_chunk s (j @ wire t @ wire l)) = stderr s @ [Overflow]"
    by (simp_all add: records_append process_chunk_append o r rwt tl(2) s1_def [symmetric]
        rwl1 l1(2) process_line_fields p se1)
  show ?thesis
    using o a1 a2 a3 by (simp add: s0_def)
qed

theorem overflow_discards_pending_witness:
  "newline \<notin> set (junk 1024) \<and> junk 1024 \<noteq> [] \<and>
   length (buffer init) + length (junk 1024) = BUFFER_SIZE \<and>
   newline \<notin> set ''x'' \<and> length ''x'' < BUFFER_SIZE \<and>
   newline \<notin> set ''100,50'' \<and> length ''100,50'' < BUFFER_SIZE \<and>
   sscanf_d_d (c_string ''100,50'') = (Some 100, Some 50) \<and>
   stderr (process_chunk init (junk 1024)) = [Overflow] \<and>
   buffer (process_chunk init (junk 1024)) = [] \<and>
   sample_idx (process_chunk init (junk 1024)) = 0 \<and>
   csvFile (process_chunk init (junk 1024)) = [] \<and>
   records init (junk 1024 @ wire ''100,50'') = [''100,50''] \<and>
   ir_raw (process_chunk init (junk 1024 @ wire ''100,50'')) = 50 \<and>
   records init (junk 1024 @ wire ''x'' @ wire ''100,50'') = [''x'', ''100,50''] \<and>
   red_raw (process_chunk init (junk 1024 @ wire ''x'' @ wire ''100,50'')) = 100 \<and>
   ir_raw (process_chunk init (junk 1024 @ wire ''x'' @ wire ''100,50'')) = 50"
proof -
  have h3: "length (buffer init) + length (junk 1024) = BUFFER_SIZE"
    by (simp add: init_def junk_facts)
  have h5: "length ''x'' < BUFFER_SIZE" and h7: "length ''100,50'' < BUFFER_SIZE"
    by (simp_all add: BUFFER_SIZE_def)
  have h8: "sscanf_d_d (c_string ''100,50'') = (Some 100, Some 50)"
    by (rule conversions_examples)
  have i: "stderr init = []" "sample_idx init = 0" "csvFile init = []"
    by (simp_all add: init_def)
  show ?thesis
    using overflow_discards_pending
      [OF junk_facts(1) junk_facts(2) h3 junk_facts(5) h5 junk_facts(6) h7 h8]
      junk_facts(1,2,5,6) h3 h5 h7 h8 i
    by simp
qed

text \<open>
  The claim as stated fails when bytes lie between the overflow and the well-formed
  line. After 1025 bytes \<^verbatim>\<open>x\<close> without a terminator, the line \<^verbatim>\<open>100,50\<close> is
  completed as \<^verbatim>\<open>x100,50\<close>, from which \<^verbatim>\<open>sscanf\<close> extracts nothing: the sample is
  (0, 0), not (100, 50).
\<close>

theorem overflow_counterexample:
  "newline \<notin> set (junk 1025) \<and> BUFFER_SIZE < length (junk 1025) \<and>
   sscanf_d_d (c_string ''100,50'') = (Some 100, Some 50) \<and>
   stderr (process_chunk init (junk 1025 @ wire ''100,50'')) = [Overflow] \<and>
   records init (junk 1025 @ wire ''100,50'') = [''x100,50''] \<and>
   sample_idx (process_chunk init (junk 1025 @ wire ''100,50'')) = 1 \<and>
   red_raw (process_chunk init (junk 1025 @ wire ''100,50'')) = 0 \<and>
   ir_raw (process_chunk init (junk 1025 @ wire ''100,50'')) = 0"
proof -
  define s0 where "s0 = init\<lparr>stderr := stderr init @ [Overflow], buffer := []\<rparr>"
  have h3: "length (buffer init) + length (junk 1024) = BUFFER_SIZE"
    by (simp add: init_def junk_facts)
  have o: "process_chunk init (junk 1024) = s0" "records init (junk 1024) = []"
    unfolding s0_def by (rule overflow_at_capacity [OF junk_facts(1) junk_facts(2) h3])+
  have e: "buffer s0 = []" and f: "stderr s0 = [Overflow]" "sample_idx s0 = 0"
    by (simp_all add: s0_def init_def)
  have split: "junk 1025 @ wire ''100,50'' = junk 1024 @ wire ''x100,50''"
    by (simp add: junk_facts(4) wire_def)
  have len: "length ''x100,50'' < BUFFER_SIZE"
    by (simp add: BUFFER_SIZE_def)
  note w = line_on_empty(2) [OF e junk_facts(7) len]
  have rw: "records s0 (wire ''x100,50'') = [''x100,50'']"
    using records_wire [OF junk_facts(7), of s0] e len by simp
  have n: "newline \<notin> set (junk 1025)" "BUFFER_SIZE < length (junk 1025)"
    by (simp_all add: junk_def newline_def BUFFER_SIZE_def)
  show ?thesis
    unfolding split
    by (simp add: n records_append process_chunk_append o w rw
        process_line_fields conversions_examples f)
qed

section \<open>Malformed lines\<close>






section \<open>Errors of the byte source\<close>

text \<open>
  Claim C8, which the program does not meet. A failed \<^verbatim>\<open>ReadFile\<close> leaves
  \<^verbatim>\<open>n_bytes\<close> at 0 and its return value is not read, so the poll is taken for one
  without data: the state is unchanged and the loop goes on. Whatever value
  \<^verbatim>\<open>n_bytes\<close> holds the loop is not left, so \<^verbatim>\<open>main\<close> never reaches its shutdown
  code. That code would not call \<^verbatim>\<open>fclose\<close> after a successful \<^verbatim>\<open>CloseHandle\<close>,
  and it returns 0.
\<close>

theorem read_error_not_fatal:
  "poll_step s (0, chunk) = (Continue, s) \<and>
   fst (poll_step s (n_bytes, chunk)) = Continue \<and>
   fst (main_loop s polls) = Continue \<and>
   run_main close_handle_result polls = None \<and>
   fclose_called (shutdown 1) = False \<and>
   exit_status (shutdown close_handle_result) = 0"
  by (simp add: poll_step_eq main_loop_eq run_main_def shutdown_def delivered_def
      process_chunk_Nil)

section \<open>The low-pass filter\<close>

subsection \<open>Rounding to binary32\<close>











lemma quantum_minus [simp]: "quantum (- z) = quantum z"
  by (simp add: quantum_def)








lemma pow2_le_exp:
  assumes "(2::real) powi k \<le> 2 powi j"
  shows "k \<le> j"
proof (rule ccontr)
  assume "\<not> k \<le> j"
  then have "(2::real) powi j < 2 powi k"
    by (intro power_int_strict_increasing) simp_all
  then show False
    using assms by simp
qed
































subsection \<open>One update of the filter\<close>



















section \<open>The peak detector\<close>

lemma process_byte_last_peak:
  "last_peak (process_byte s c) =
     (if c = newline \<and> accepts (filtered s) then sample_idx s else last_peak s)"
  by (simp add: process_byte_def process_line_fields)

lemma peaks_sorted_wrt:
  "sorted_wrt (\<lambda>a b. refractory_n < b - a) (last_peak s # peaks s bytes)"
proof (induction bytes arbitrary: s)
  case Nil
  then show ?case by simp
next
  case (Cons c cs)
  let ?s' = "process_byte s c"
  have ih: "sorted_wrt (\<lambda>a b. refractory_n < b - a) (last_peak ?s' # peaks ?s' cs)"
    by (rule Cons.IH)
  show ?case
  proof (cases "c = newline \<and> accepts (filtered s)")
    case True
    then have lp: "last_peak ?s' = sample_idx s"
      by (simp add: process_byte_last_peak)
    have gap: "refractory_n < sample_idx s - last_peak s"
      using True by (simp add: accepts_def)
    have later: "\<forall>p\<in>set (peaks ?s' cs). refractory_n < p - sample_idx s"
      using ih by (simp add: lp)
    have "\<forall>p\<in>set (peaks ?s' cs). refractory_n < p - last_peak s"
      using later gap by (auto simp: refractory_n_eq)
    moreover have "peaks s (c # cs) = sample_idx s # peaks ?s' cs"
      using True by simp
    moreover have "sorted_wrt (\<lambda>a b. refractory_n < b - a) (sample_idx s # peaks ?s' cs)"
      using ih by (simp only: lp)
    ultimately show ?thesis
      using gap by (simp del: peaks.simps)
  next
    case False
    have "last_peak ?s' = last_peak s"
      using False by (auto simp: process_byte_last_peak)
    moreover have "peaks s (c # cs) = peaks ?s' cs"
      using False by auto
    ultimately show ?thesis
      using ih by (simp del: peaks.simps)
  qed
qed

text \<open>
  Claim C2. \<^verbatim>\<open>refractory_n\<close> is 30. Over any run of the byte loop from any state,
  every two accepted peaks are more than \<^verbatim>\<open>refractory_n\<close> samples apart, and so are
  each of them and the last peak accepted before the run. A crossing at most
  \<^verbatim>\<open>refractory_n\<close> samples after the last peak leaves \<^verbatim>\<open>last_peak\<close> and
  \<^verbatim>\<open>prev_peak\<close> as they were, and no peak is accepted.
\<close>

theorem refractory_gap:
  "refractory_n = 30 \<and>
   (\<forall>i j. i < j \<longrightarrow> j < length (peaks s bytes) \<longrightarrow>
      refractory_n < peaks s bytes ! j - peaks s bytes ! i) \<and>
   (\<forall>p\<in>set (peaks s bytes). refractory_n < p - last_peak s) \<and>
   (crossing (filtered t) \<and> sample_idx t - last_peak t \<le> refractory_n \<longrightarrow>
      last_peak (process_line t) = last_peak t \<and>
      prev_peak (process_line t) = prev_peak t \<and>
      peaks t [newline] = [])"
proof -
  have "sorted_wrt (\<lambda>a b. refractory_n < b - a) (last_peak s # peaks s bytes)"
    by (rule peaks_sorted_wrt)
  then have a: "\<forall>p\<in>set (peaks s bytes). refractory_n < p - last_peak s"
    and b: "sorted_wrt (\<lambda>a b. refractory_n < b - a) (peaks s bytes)"
    by simp_all
  have c: "\<forall>i j. i < j \<longrightarrow> j < length (peaks s bytes) \<longrightarrow>
      refractory_n < peaks s bytes ! j - peaks s bytes ! i"
    using b by (simp add: sorted_wrt_iff_nth_less)
  have d: "crossing (filtered t) \<and> sample_idx t - last_peak t \<le> refractory_n \<longrightarrow>
      last_peak (process_line t) = last_peak t \<and>
      prev_peak (process_line t) = prev_peak t \<and>
      peaks t [newline] = []"
    by (simp add: process_line_fields accepts_def)
  show ?thesis
    using a c d refractory_n_eq by blast
qed

theorem refractory_gap_witness:
  "peaks init (beat 10 @ beat 48) = [10, 60] \<and>
   refractory_n < peaks init (beat 10 @ beat 48) ! 1 - peaks init (beat 10 @ beat 48) ! 0 \<and>
   crossing (filtered before_early_crossing) \<and>
   sample_idx before_early_crossing - last_peak before_early_crossing \<le> refractory_n \<and>
   sample_idx before_early_crossing = 15 \<and>
   last_peak (process_line before_early_crossing) = 10 \<and>
   prev_peak (process_line before_early_crossing) = - 1000 \<and>
   peaks before_early_crossing [newline] = []"
proof -
  have w: "sample_idx before_early_crossing - last_peak before_early_crossing \<le> refractory_n"
    by (simp add: before_early_crossing_fields refractory_n_eq)
  from refractory_gap [of init "beat 10 @ beat 48" before_early_crossing]
  have "refractory_n < peaks init (beat 10 @ beat 48) ! 1 - peaks init (beat 10 @ beat 48) ! 0"
    and "last_peak (process_line before_early_crossing) = last_peak before_early_crossing"
    and "prev_peak (process_line before_early_crossing) = prev_peak before_early_crossing"
    and "peaks before_early_crossing [newline] = []"
    using second_beat(7) before_early_crossing_fields(4) w by simp_all
  then show ?thesis
    using second_beat(7) before_early_crossing_fields w by simp
qed

section \<open>The heart-rate estimator\<close>

text \<open>
  Claim C3. Processing a line changes \<^verbatim>\<open>hr_bpm_filt\<close> only if a peak was accepted,
  the peak before it is not the initial one, and the rate between the two is strictly
  between \<^verbatim>\<open>min_hr_bpm\<close> and \<^verbatim>\<open>max_hr_bpm\<close>. When the rate is not strictly
  between the bounds, in particular when it equals one of them, neither \<^verbatim>\<open>hr_bpm\<close>
  nor \<^verbatim>\<open>hr_bpm_filt\<close> changes.
\<close>

theorem hr_changes_only_on_plausible_peak:
  "(hr_bpm_filt (process_line s) \<noteq> hr_bpm_filt s \<longrightarrow>
      accepts (filtered s) \<and> 0 \<le> prev_peak (shift_peaks (filtered s)) \<and>
      min_hr_bpm < inst_hr (shift_peaks (filtered s)) \<and>
      inst_hr (shift_peaks (filtered s)) < max_hr_bpm) \<and>
   (\<not> (min_hr_bpm < inst_hr (shift_peaks (filtered s)) \<and>
        inst_hr (shift_peaks (filtered s)) < max_hr_bpm) \<longrightarrow>
      hr_bpm (process_line s) = hr_bpm s \<and> hr_bpm_filt (process_line s) = hr_bpm_filt s) \<and>
   (inst_hr (shift_peaks (filtered s)) = min_hr_bpm \<or>
    inst_hr (shift_peaks (filtered s)) = max_hr_bpm \<longrightarrow>
      hr_bpm (process_line s) = hr_bpm s \<and> hr_bpm_filt (process_line s) = hr_bpm_filt s)"
  by (auto simp: process_line_fields hr_runs_def plausible_def)

theorem hr_changes_only_on_plausible_peak_witness:
  "hr_bpm_filt before_second_peak = 0 \<and>
   hr_bpm_filt (process_line before_second_peak) = 36 \<and>
   accepts (filtered before_second_peak) \<and>
   inst_hr (shift_peaks (filtered before_second_peak)) = 120 \<and>
   accepts (filtered before_slow_peak) \<and>
   inst_hr (shift_peaks (filtered before_slow_peak)) = min_hr_bpm \<and>
   hr_bpm (process_line before_slow_peak) = 120 \<and>
   hr_bpm_filt (process_line before_slow_peak) = 36"
proof -
  have i: "inst_hr (shift_peaks (filtered before_second_peak)) = 120"
    "inst_hr (shift_peaks (filtered before_slow_peak)) = min_hr_bpm"
    by (simp_all add: inst_hr_shift before_second_peak_fields before_slow_peak_fields
        min_hr_bpm_def)
  have c: "hr_bpm_filt (process_line before_second_peak) = 36"
    using before_second_peak_fields(6) i(1)
    by (simp add: process_line_fields hr_runs_def plausible_def min_hr_bpm_def max_hr_bpm_def
        alpha_hr_def before_second_peak_fields)
  from hr_changes_only_on_plausible_peak [of before_slow_peak]
  have "hr_bpm (process_line before_slow_peak) = hr_bpm before_slow_peak"
    and "hr_bpm_filt (process_line before_slow_peak) = hr_bpm_filt before_slow_peak"
    using i(2) by simp_all
  moreover from hr_changes_only_on_plausible_peak [of before_second_peak]
  have "accepts (filtered before_second_peak)"
    using c by (simp add: before_second_peak_fields)
  ultimately show ?thesis
    using i c by (simp add: before_second_peak_fields before_slow_peak_fields)
qed

text \<open>
  Claim C6. With the last peak at sample 10 and a peak accepted at sample 60, at 100 Hz,
  the period is 0.5 s and the rate 120 bpm; it is plausible, \<^verbatim>\<open>hr_bpm\<close> becomes 120 and
  \<^verbatim>\<open>hr_bpm_filt\<close> moves by \<^verbatim>\<open>alpha_hr\<close> = 3/10 of its distance to 120. The example
  after it runs the program from its initial state on 61 lines, with peaks at samples
  10 and 60.
\<close>

theorem scenario_two_peaks:
  assumes "last_peak s = 10" and "sample_idx s = 60" and "accepts (filtered s)"
  shows "prev_peak (process_line s) = 10 \<and> last_peak (process_line s) = 60 \<and>
         FS = 100 \<and>
         period_sec (shift_peaks (filtered s)) = 1 / 2 \<and>
         inst_hr (shift_peaks (filtered s)) = 120 \<and>
         plausible (shift_peaks (filtered s)) \<and>
         hr_bpm (process_line s) = 120 \<and>
         alpha_hr = 3 / 10 \<and>
         hr_bpm_filt (process_line s) = hr_bpm_filt s + 3 / 10 * (120 - hr_bpm_filt s)"
proof -
  have p: "period_sec (shift_peaks (filtered s)) = 1 / 2"
    using assms by (simp add: period_sec_def delta_n_shift FS_def)
  have i: "inst_hr (shift_peaks (filtered s)) = 120"
    using assms by (simp add: inst_hr_shift)
  have pl: "plausible (shift_peaks (filtered s))"
    by (simp add: plausible_def i min_hr_bpm_def max_hr_bpm_def)
  have r: "hr_runs (filtered s)"
    using assms pl by (simp add: hr_runs_def)
  show ?thesis
    using assms p i pl r by (simp add: process_line_fields FS_def alpha_hr_def)
qed

theorem scenario_two_peaks_witness:
  "last_peak before_second_peak = 10 \<and>
   sample_idx before_second_peak = 60 \<and>
   accepts (filtered before_second_peak) \<and>
   process_chunk init (beat 10 @ idle 48 @ wire ''0,50'') = process_line before_second_peak \<and>
   peaks init (beat 10 @ idle 48 @ wire ''0,50'') = [10, 60] \<and>
   hr_bpm (process_line before_second_peak) = 120 \<and>
   hr_bpm_filt (process_line before_second_peak) = 36"
  using scenario_two_peaks [OF before_second_peak_fields(2,1,6)]
  by (simp add: before_second_peak_fields)

text \<open>
  Claim C10. Whenever lines 155 to 165 run, that is when a peak was accepted and the
  peak before it is not the initial \<^verbatim>\<open>-1000\<close>, the two peaks are at least
  \<^verbatim>\<open>refractory_n + 1 = 31\<close> samples apart. So the period is positive, the division
  \<^verbatim>\<open>60.0f / period_sec\<close> is not by zero, the rate is at most 6000/31, and the
  test against \<^verbatim>\<open>max_hr_bpm\<close> always succeeds: only the lower bound can reject.
\<close>

theorem hr_interval_bounds:
  assumes "accepts s" and "0 \<le> prev_peak (shift_peaks s)"
  shows "detect_peak s = update_hr (shift_peaks s) \<and>
         refractory_n + 1 = 31 \<and>
         refractory_n + 1 \<le> delta_n (shift_peaks s) \<and>
         0 < period_sec (shift_peaks s) \<and>
         inst_hr (shift_peaks s) \<le> 6000 / 31 \<and>
         inst_hr (shift_peaks s) < max_hr_bpm \<and>
         plausible (shift_peaks s) = (min_hr_bpm < inst_hr (shift_peaks s))"
proof -
  have d: "31 \<le> sample_idx s - last_peak s"
    using assms(1) by (simp add: accepts_def refractory_n_eq)
  have u: "inst_hr (shift_peaks s) \<le> 6000 / 31"
    by (rule inst_hr_upper [OF assms(1)])
  then have m: "inst_hr (shift_peaks s) < max_hr_bpm"
    by (simp add: max_hr_bpm_def)
  have p: "0 < period_sec (shift_peaks s)"
    using d by (simp add: period_sec_def delta_n_shift FS_def)
  show ?thesis
    using assms d u m p by (simp add: detect_peak_eq refractory_n_eq delta_n_shift plausible_def)
qed

theorem hr_interval_bounds_witness:
  "accepts (filtered before_second_peak) \<and>
   0 \<le> prev_peak (shift_peaks (filtered before_second_peak)) \<and>
   delta_n (shift_peaks (filtered before_second_peak)) = 50 \<and>
   0 < period_sec (shift_peaks (filtered before_second_peak)) \<and>
   inst_hr (shift_peaks (filtered before_second_peak)) \<le> 6000 / 31 \<and>
   inst_hr (shift_peaks (filtered before_second_peak)) < max_hr_bpm"
proof -
  have a: "accepts (filtered before_second_peak)"
    by (rule before_second_peak_fields(6))
  have b: "0 \<le> prev_peak (shift_peaks (filtered before_second_peak))"
    by (simp add: before_second_peak_fields)
  have c: "delta_n (shift_peaks (filtered before_second_peak)) = 50"
    by (simp add: delta_n_shift before_second_peak_fields)
  show ?thesis
    using hr_interval_bounds [OF a b] a b c by simp
qed

end
